theory Spec2Isabelle
  imports Main
begin

section \<open>Characters and strings of the program\<close>

text \<open>
  The program works on Python \<open>str\<close> values. A character is modelled as one \<^typ>\<open>char\<close>,
  read as a code point in the range 0..255 (Latin-1); \<open>length\<close> therefore counts code
  points as Python's \<open>len\<close> does. The character classes below are those of CPython for
  that range: \<open>str.isspace\<close> (used by \<open>str.strip()\<close> and by \<open>\s\<close> in \<open>re\<close>),
  \<open>str.isdecimal\<close> (used by \<open>\d\<close>) and \<open>str.lower\<close>.
\<close>

definition isspace :: "char \<Rightarrow> bool" where
  "isspace c \<longleftrightarrow> c \<in> set [CHR 0x09, CHR 0x0A, CHR 0x0B, CHR 0x0C, CHR 0x0D,
     CHR 0x1C, CHR 0x1D, CHR 0x1E, CHR 0x1F, CHR 0x20, CHR 0x85, CHR 0xA0]"

definition isdecimal :: "char \<Rightarrow> bool" where
  "isdecimal c \<longleftrightarrow> (48::nat) \<le> of_char c \<and> (of_char c :: nat) \<le> 57"

definition is_newline :: "char \<Rightarrow> bool" where
  "is_newline c \<longleftrightarrow> c = CHR 0x0A"

definition is_dot :: "char \<Rightarrow> bool" where
  "is_dot c \<longleftrightarrow> c = CHR ''.''"

definition isupper :: "char \<Rightarrow> bool" where
  "isupper c \<longleftrightarrow> (let n = (of_char c :: nat) in
     (65 \<le> n \<and> n \<le> 90) \<or> (192 \<le> n \<and> n \<le> 222 \<and> n \<noteq> 215))"

definition lower_char :: "char \<Rightarrow> char" where
  "lower_char c = (if isupper c then char_of ((of_char c :: nat) + 32) else c)"

text \<open>\<open>s.lower()\<close>\<close>

definition lower :: "string \<Rightarrow> string" where
  "lower s = map lower_char s"

text \<open>\<open>s.strip()\<close>: leading and trailing whitespace removed.\<close>

definition strip :: "string \<Rightarrow> string" where
  "strip s = rev (dropWhile isspace (rev (dropWhile isspace s)))"

text \<open>\<open>kw in s\<close> on strings: \<open>kw\<close> occurs in \<open>s\<close> as a contiguous substring.\<close>

fun starts_with :: "string \<Rightarrow> string \<Rightarrow> bool" where
  "starts_with [] s = True"
| "starts_with (k # ks) [] = False"
| "starts_with (k # ks) (c # cs) = (k = c \<and> starts_with ks cs)"

fun contains :: "string \<Rightarrow> string \<Rightarrow> bool" where
  "contains kw [] = (kw = [])"
| "contains kw (c # cs) = (starts_with kw (c # cs) \<or> contains kw cs)"

text \<open>
  \<open>s.replace('_', ' ')\<close> and \<open>s.title()\<close>. \<open>title\<close> upper-cases a cased character that
  follows an uncased one (or starts the string) and lower-cases one that follows a cased
  character. The program applies it to the keys of \<open>RISK_PATTERNS\<close> only, which consist
  of \<open>a\<close>..\<open>z\<close> and \<open>_\<close>; the three Latin-1 letters whose title-case form lies outside
  the range 0..255 (0xB5, 0xDF, 0xFF) are left unchanged by \<open>upper_char\<close>.
\<close>

definition islower :: "char \<Rightarrow> bool" where
  "islower c \<longleftrightarrow> (let n = (of_char c :: nat) in
     (97 \<le> n \<and> n \<le> 122) \<or> (224 \<le> n \<and> n \<le> 254 \<and> n \<noteq> 247))"

definition upper_char :: "char \<Rightarrow> char" where
  "upper_char c = (if islower c then char_of ((of_char c :: nat) - 32) else c)"

definition is_cased :: "char \<Rightarrow> bool" where
  "is_cased c \<longleftrightarrow> isupper c \<or> islower c \<or> c \<in> set [CHR 0xAA, CHR 0xB5, CHR 0xBA, CHR 0xDF, CHR 0xFF]"

definition replace_underscore :: "string \<Rightarrow> string" where
  "replace_underscore s = map (\<lambda>c. if c = CHR ''_'' then CHR '' '' else c) s"

fun title_from :: "bool \<Rightarrow> string \<Rightarrow> string" where
  "title_from previous_is_cased [] = []"
| "title_from previous_is_cased (c # cs) =
     (if previous_is_cased then lower_char c else upper_char c) # title_from (is_cased c) cs"

definition title :: "string \<Rightarrow> string" where
  "title s = title_from False s"

section \<open>The regular expression of the segmenter\<close>

text \<open>
  \<open>re.split(r'\n\s*\n+|\n\s*\d+\.', text)\<close>. Each alternative of the pattern is a
  sequence of character classes, each taken once or under a greedy \<open>*\<close> or \<open>+\<close>.
  \<open>re_match\<close> is the backtracking matcher of \<open>re\<close> on such a sequence: a greedy
  quantifier first takes as many characters as it can and gives them back one at a time
  when the rest of the sequence fails. It returns the text left after the match.
  \<open>re_match_alt\<close> tries the alternatives from left to right and takes the first that
  matches.
\<close>

datatype quant = Once | Star | Plus

type_synonym atom = "(char \<Rightarrow> bool) \<times> quant"

fun re_match :: "atom list \<Rightarrow> string \<Rightarrow> string option" where
  "re_match [] s = Some s"
| "re_match ((P, Once) # rs) [] = None"
| "re_match ((P, Once) # rs) (c # cs) = (if P c then re_match rs cs else None)"
| "re_match ((P, Star) # rs) [] = re_match rs []"
| "re_match ((P, Star) # rs) (c # cs) =
     (if P c then
        (case re_match ((P, Star) # rs) cs of
           Some rest \<Rightarrow> Some rest
         | None \<Rightarrow> re_match rs (c # cs))
      else re_match rs (c # cs))"
| "re_match ((P, Plus) # rs) [] = None"
| "re_match ((P, Plus) # rs) (c # cs) =
     (if P c then re_match ((P, Star) # rs) cs else None)"

fun re_match_alt :: "atom list list \<Rightarrow> string \<Rightarrow> string option" where
  "re_match_alt [] s = None"
| "re_match_alt (b # bs) s =
     (case re_match b s of Some rest \<Rightarrow> Some rest | None \<Rightarrow> re_match_alt bs s)"

text \<open>The pattern \<open>\n\s*\n+|\n\s*\d+\.\<close>\<close>

definition clause_boundary :: "atom list list" where
  "clause_boundary =
     [[(is_newline, Once), (isspace, Star), (is_newline, Plus)],
      [(is_newline, Once), (isspace, Star), (isdecimal, Plus), (is_dot, Once)]]"

text \<open>
  \<open>re.split\<close>: scan the text from left to right; at each position try the pattern;
  on a match close the current piece and go on after the match, otherwise move one
  character into the current piece. The pieces between the matches are returned; the
  matched text is dropped (the pattern has no capture group). Both alternatives consume
  at least two characters, so a match is never empty; the length test states that.
\<close>

fun split_scan :: "atom list list \<Rightarrow> string \<Rightarrow> string \<Rightarrow> string list" where
  "split_scan pat cur [] = [cur]"
| "split_scan pat cur (c # cs) =
     (case re_match_alt pat (c # cs) of
        Some rest \<Rightarrow>
          if length rest < length (c # cs) then cur # split_scan pat [] rest
          else split_scan pat (cur @ [c]) cs
      | None \<Rightarrow> split_scan pat (cur @ [c]) cs)"

definition re_split :: "string \<Rightarrow> string list" where
  "re_split text = split_scan clause_boundary [] text"

section \<open>Data model\<close>

text \<open>An entry of \<open>RISK_PATTERNS\<close>; \<open>rd_keywords\<close> is its key \<open>keywords\<close>.\<close>

record risk_data =
  rd_keywords :: "string list"
  risk_level :: string
  rationale :: string
  suggestion :: string

text \<open>
  A finding, the dict appended to \<open>detected_risks\<close>; its keys \<open>type\<close>, \<open>risk_level\<close>,
  \<open>matched_keywords\<close>, \<open>rationale\<close> and \<open>suggestion\<close>.
\<close>

record finding =
  f_type :: string
  f_risk_level :: string
  matched_keywords :: "string list"
  f_rationale :: string
  f_suggestion :: string

text \<open>A clause, the dict built by the segmenter; its keys \<open>id\<close>, \<open>text\<close>, \<open>detected_risks\<close>.\<close>

record clause =
  clause_id :: nat
  clause_text :: string
  detected_risks :: "finding list"

text \<open>
  \<open>RISK_PATTERNS\<close> is a dict, iterated in insertion order: an association list.
\<close>

definition RISK_PATTERNS :: "(string \<times> risk_data) list" where
  "RISK_PATTERNS = [
    (''liability'', \<lparr>
      rd_keywords = [''unlimited liability'',
        ''no limitation'',
        ''all liability'',
        ''any and all liability'',
        ''indemnify'',
        ''hold harmless'',
        ''without limitation'',
        ''to the fullest extent''],
      risk_level = ''High'',
      rationale = ''Unlimited liability clauses expose the organization to excessive financial risk.'',
      suggestion = ''Liability should be limited to direct damages and capped at a reasonable amount (e.g., fees paid in the last 12 months).''\<rparr>),
    (''termination'', \<lparr>
      rd_keywords = [''termination for convenience'',
        ''terminate at will'',
        ''without cause'',
        ''immediate termination'',
        ''no notice''],
      risk_level = ''Medium'',
      rationale = ''Lack of termination protections can result in sudden contract cancellations.'',
      suggestion = ''Include minimum notice periods (e.g., 30-90 days) and allow termination only for material breach or with adequate notice.''\<rparr>),
    (''intellectual_property'', \<lparr>
      rd_keywords = [''all rights'',
        ''exclusive rights'',
        ''assign all intellectual property'',
        ''waive all rights'',
        ''work for hire'',
        ''transfer of ownership''],
      risk_level = ''High'',
      rationale = ''Broad IP assignment can result in loss of valuable intellectual property.'',
      suggestion = ''Limit IP transfer to only what is necessary for the specific project. Retain ownership of pre-existing IP and general methodologies.''\<rparr>),
    (''confidentiality'', \<lparr>
      rd_keywords = [''perpetual confidentiality'',
        ''indefinite'',
        ''in perpetuity'',
        ''no time limit'',
        ''forever''],
      risk_level = ''Medium'',
      rationale = ''Indefinite confidentiality obligations create long-term compliance burdens.'',
      suggestion = ''Limit confidentiality obligations to 3-5 years post-contract termination, with standard exceptions for publicly available information.''\<rparr>),
    (''payment'', \<lparr>
      rd_keywords = [''non-refundable'',
        ''upfront payment'',
        ''payment in full'',
        ''immediate payment'',
        ''no refunds''],
      risk_level = ''Medium'',
      rationale = ''Unfavorable payment terms can create cash flow issues and limit recourse.'',
      suggestion = ''Structure payments based on milestones or deliverables. Include provisions for refunds in case of non-performance.''\<rparr>),
    (''warranty'', \<lparr>
      rd_keywords = [''no warranty'',
        ''as is'',
        ''without warranty'',
        ''disclaim all warranties'',
        ''no guarantee'',
        ''express or implied''],
      risk_level = ''High'',
      rationale = ''Absence of warranties leaves no recourse if deliverables are defective.'',
      suggestion = ''Include express warranties for fitness for purpose, merchantability, and compliance with specifications for a reasonable period.''\<rparr>),
    (''dispute_resolution'', \<lparr>
      rd_keywords = [''exclusive jurisdiction'',
        ''mandatory arbitration'',
        ''waive right to jury'',
        ''binding arbitration'',
        ''foreign jurisdiction''],
      risk_level = ''Medium'',
      rationale = ''Unfavorable dispute resolution terms can make it difficult and expensive to resolve conflicts.'',
      suggestion = ''Negotiate for mutual jurisdiction, mediation before arbitration, and reasonable venue selection.''\<rparr>),
    (''force_majeure'', \<lparr>
      rd_keywords = [''no force majeure'',
        ''limited force majeure'',
        ''excludes pandemic'',
        ''narrow force majeure''],
      risk_level = ''Low'',
      rationale = ''Narrow force majeure clauses may not protect against unforeseen events.'',
      suggestion = ''Include comprehensive force majeure language covering natural disasters, pandemics, government actions, and other unforeseeable events.''\<rparr>)]"


section \<open>The segmenter\<close>

text \<open>
  The loop \<open>for i, para in enumerate(paragraphs)\<close> of \<open>segment_into_clauses\<close>; \<open>i\<close> is
  the index of \<open>para\<close> among all the pieces of the split.
\<close>

fun clean_and_filter :: "nat \<Rightarrow> string list \<Rightarrow> clause list" where
  "clean_and_filter i [] = []"
| "clean_and_filter i (para # paragraphs) =
     (let cleaned = strip para in
      if length cleaned > 50
      then \<lparr>clause_id = i + 1, clause_text = cleaned, detected_risks = []\<rparr>
             # clean_and_filter (i + 1) paragraphs
      else clean_and_filter (i + 1) paragraphs)"

definition segment_into_clauses :: "string \<Rightarrow> clause list" where
  "segment_into_clauses text = clean_and_filter 0 (re_split text)"

section \<open>The risk classifier\<close>

text \<open>
  The list comprehension \<open>[kw for kw in risk_data['keywords'] if kw.lower() in clause_lower]\<close>.
\<close>

definition matches :: "risk_data \<Rightarrow> string \<Rightarrow> string list" where
  "matches rd clause_lower = filter (\<lambda>kw. contains (lower kw) clause_lower) (rd_keywords rd)"

text \<open>The dict appended for a category with matches.\<close>

definition detected_risk :: "string \<Rightarrow> risk_data \<Rightarrow> string list \<Rightarrow> finding" where
  "detected_risk risk_type rd ms =
     \<lparr>f_type = title (replace_underscore risk_type),
      f_risk_level = risk_level rd,
      matched_keywords = ms,
      f_rationale = rationale rd,
      f_suggestion = suggestion rd\<rparr>"

text \<open>
  The loop \<open>for risk_type, risk_data in RISK_PATTERNS.items()\<close> of
  \<open>analyze_clause_risk\<close>, with the list \<open>detected_risks\<close> it appends to.
\<close>

fun analyze_loop :: "(string \<times> risk_data) list \<Rightarrow> string \<Rightarrow> finding list \<Rightarrow> finding list" where
  "analyze_loop [] clause_lower detected_risks' = detected_risks'"
| "analyze_loop ((risk_type, rd) # items) clause_lower detected_risks' =
     (let ms = matches rd clause_lower in
      if ms \<noteq> []
      then analyze_loop items clause_lower (detected_risks' @ [detected_risk risk_type rd ms])
      else analyze_loop items clause_lower detected_risks')"

definition analyze_clause_risk :: "string \<Rightarrow> finding list" where
  "analyze_clause_risk clause_text' = analyze_loop RISK_PATTERNS (lower clause_text') []"

section \<open>Redline lookup\<close>

definition fallback :: string where
  "fallback = ''No specific redline suggestion available.''"

text \<open>The dict \<open>suggestions\<close> of \<open>generate_redline\<close>.\<close>

definition suggestions :: "(string \<times> string) list" where
  "suggestions = [
    (''Liability'',
     ''SUGGESTED REDLINE: \"Party's total liability under this Agreement shall be limited to direct damages only and shall not exceed the total fees paid by Client in the twelve (12) months preceding the claim.\"''),
    (''Termination'',
     ''SUGGESTED REDLINE: \"Either party may terminate this Agreement for convenience upon ninety (90) days prior written notice. In case of material breach, termination may occur with thirty (30) days notice and opportunity to cure.\"''),
    (''Intellectual Property'',
     ''SUGGESTED REDLINE: \"Client shall own IP specifically created for this project. Provider retains ownership of pre-existing IP, tools, methodologies, and any general knowledge or experience gained.\"''),
    (''Confidentiality'',
     ''SUGGESTED REDLINE: \"Confidentiality obligations shall survive for three (3) years following termination, except for information that: (a) is publicly available, (b) was known prior to disclosure, or (c) is independently developed.\"''),
    (''Payment'',
     ''SUGGESTED REDLINE: \"Payment shall be made in installments based on project milestones: 30% upon signing, 40% upon milestone completion, 30% upon final delivery and acceptance.\"''),
    (''Warranty'',
     ''SUGGESTED REDLINE: \"Provider warrants that deliverables will conform to specifications and be fit for their intended purpose for ninety (90) days. Provider will remedy any defects at no additional cost during this period.\"''),
    (''Dispute Resolution'',
     ''SUGGESTED REDLINE: \"Disputes shall first be addressed through good-faith negotiation, followed by mediation if necessary. If unresolved, disputes may proceed to arbitration under mutually agreed rules in a neutral jurisdiction.\"''),
    (''Force Majeure'',
     ''SUGGESTED REDLINE: \"Neither party shall be liable for delays or failures due to force majeure events including natural disasters, pandemics, war, government actions, or other events beyond reasonable control.\"'')]"

text \<open>\<open>suggestions.get(risk_type, fallback)\<close>; the first argument is not used.\<close>

definition generate_redline :: "string \<Rightarrow> string \<Rightarrow> string" where
  "generate_redline original_text rtype =
     (case map_of suggestions rtype of Some s \<Rightarrow> s | None \<Rightarrow> fallback)"

section \<open>The analysis step of the application\<close>

text \<open>
  \<open>main\<close> segments the text, stores the findings of each clause in its
  \<open>detected_risks\<close> and sums their numbers.
\<close>

definition analyze_contract :: "string \<Rightarrow> clause list" where
  "analyze_contract contract_text =
     map (\<lambda>c. c\<lparr>detected_risks := analyze_clause_risk (clause_text c)\<rparr>)
       (segment_into_clauses contract_text)"

definition total_risks :: "clause list \<Rightarrow> nat" where
  "total_risks clauses = sum_list (map (\<lambda>c. length (detected_risks c)) clauses)"

section \<open>Letter case\<close>

text \<open>
  Two characters that differ at most in letter case: the second is the first, its
  lower-case form or its upper-case form. Texts of equal length whose characters are
  related so position by position differ only in the case of their letters.
\<close>

definition case_variant :: "char \<Rightarrow> char \<Rightarrow> bool" where
  "case_variant c d \<longleftrightarrow> d = c \<or> d = lower_char c \<or> d = upper_char c"

text \<open>
  \<open>s.upper()\<close> for a text over the code points 0..255 whose upper-case form stays in that
  range: the sharp s (0xDF) becomes \<open>SS\<close>. The upper-case forms of 0xB5 and 0xFF lie
  outside the range; those two characters are left unchanged here.
\<close>

definition upper :: "string \<Rightarrow> string" where
  "upper s = concat (map (\<lambda>c. if c = CHR 0xDF then ''SS'' else [upper_char c]) s)"

section \<open>A call of the classifier as a state transformer\<close>

text \<open>
  \<open>analyze_clause_risk\<close> reads the module global \<open>RISK_PATTERNS\<close> and builds its result
  in the variable \<open>detected_risks\<close>. Here both are components of an explicit state:
  a call assigns \<open>[]\<close> to \<open>detected_risks\<close>, runs the loop over the items of the
  global, each matching category appending to \<open>detected_risks\<close>, and returns its value
  together with the state it leaves behind.
\<close>

record py_state =
  g_RISK_PATTERNS :: "(string \<times> risk_data) list"
  v_detected_risks :: "finding list"

fun analyze_steps :: "(string \<times> risk_data) list \<Rightarrow> string \<Rightarrow> py_state \<Rightarrow> py_state" where
  "analyze_steps [] clause_lower \<sigma> = \<sigma>"
| "analyze_steps ((risk_type, rd) # items) clause_lower \<sigma> =
     (let ms = matches rd clause_lower in
      if ms \<noteq> []
      then analyze_steps items clause_lower
             (\<sigma>\<lparr>v_detected_risks := v_detected_risks \<sigma> @ [detected_risk risk_type rd ms]\<rparr>)
      else analyze_steps items clause_lower \<sigma>)"

definition analyze_clause_risk_run :: "string \<Rightarrow> py_state \<Rightarrow> finding list \<times> py_state" where
  "analyze_clause_risk_run clause_text' \<sigma> =
     (let clause_lower = lower clause_text';
          \<sigma>1 = \<sigma>\<lparr>v_detected_risks := []\<rparr>;
          \<sigma>2 = analyze_steps (g_RISK_PATTERNS \<sigma>1) clause_lower \<sigma>1
      in (v_detected_risks \<sigma>2, \<sigma>2))"

section \<open>Auxiliary facts\<close>

subsection \<open>The matcher and the split\<close>

lemma re_match_suffix: "re_match rs s = Some rest \<Longrightarrow> \<exists>m. s = m @ rest"
proof (induction rs s arbitrary: rest rule: re_match.induct)
  case (5 P rs c cs)
  show ?case
  proof (cases "P c")
    case True
    show ?thesis
    proof (cases "re_match ((P, Star) # rs) cs")
      case None
      with True 5 show ?thesis by simp
    next
      case (Some r)
      with True "5.prems" have "r = rest" by simp
      with "5.IH"(1)[OF True] Some obtain m where "cs = m @ rest" by blast
      then have "c # cs = (c # m) @ rest" by simp
      then show ?thesis by blast
    qed
  next
    case False
    with 5 show ?thesis by simp
  qed
next
  case (3 P rs c cs)
  then show ?case by (metis append_Cons option.distinct(1) re_match.simps(3))
next
  case (7 P rs c cs)
  then show ?case by (metis append_Cons option.distinct(1) re_match.simps(7))
qed auto

lemma re_match_alt_suffix: "re_match_alt bs s = Some rest \<Longrightarrow> \<exists>m. s = m @ rest"
  by (induction bs) (auto split: option.splits dest: re_match_suffix)

lemma boundary_match_shorter:
  assumes "re_match_alt clause_boundary s = Some rest"
  shows "length rest < length s"
proof (cases s)
  case Nil
  with assms show ?thesis by (simp add: clause_boundary_def)
next
  case (Cons c cs)
  from assms Cons have "re_match [(isspace, Star), (is_newline, Plus)] cs = Some rest
     \<or> re_match [(isspace, Star), (isdecimal, Plus), (is_dot, Once)] cs = Some rest"
    by (auto simp: clause_boundary_def split: option.splits if_splits)
  then obtain m where "cs = m @ rest" using re_match_suffix by blast
  with Cons show ?thesis by simp
qed

lemma split_scan_chars:
  "p \<in> set (split_scan pat cur s) \<Longrightarrow> set p \<subseteq> set cur \<union> set s"
proof (induction pat cur s rule: split_scan.induct)
  case (1 pat cur)
  then show ?case by simp
next
  case (2 pat cur c cs)
  show ?case
  proof (cases "re_match_alt pat (c # cs)")
    case None
    with 2 show ?thesis by auto
  next
    case (Some rest)
    show ?thesis
    proof (cases "length rest < length (c # cs)")
      case True
      from Some obtain m where m: "c # cs = m @ rest" using re_match_alt_suffix by blast
      from "2.prems" Some True have "p = cur \<or> p \<in> set (split_scan pat [] rest)" by simp
      then show ?thesis
      proof
        assume "p = cur" then show ?thesis by auto
      next
        assume "p \<in> set (split_scan pat [] rest)"
        with "2.IH" Some True have "set p \<subseteq> set rest" by simp
        moreover have "set rest \<subseteq> set (c # cs)" unfolding m by auto
        ultimately show ?thesis by blast
      qed
    next
      case False
      with 2 Some show ?thesis by auto
    qed
  qed
qed

lemma re_split_chars: "p \<in> set (re_split t) \<Longrightarrow> set p \<subseteq> set t"
  using split_scan_chars [of p clause_boundary "[]" t] by (simp add: re_split_def)

subsection \<open>Trimming and the clause loop\<close>

lemma strip_blank: "\<forall>c\<in>set s. isspace c \<Longrightarrow> strip s = []"
proof -
  assume "\<forall>c\<in>set s. isspace c"
  then have d: "dropWhile isspace s = []" by (induction s) auto
  show ?thesis unfolding strip_def d by simp
qed

lemma clean_and_filter_blank:
  "\<forall>p\<in>set ps. strip p = [] \<Longrightarrow> clean_and_filter i ps = []"
  by (induction ps arbitrary: i) auto

lemma last_dropWhile: "dropWhile P xs \<noteq> [] \<Longrightarrow> last (dropWhile P xs) = last xs"
  by (induction xs) (auto split: if_splits)

lemma strip_ends:
  assumes "strip s \<noteq> []"
  shows "\<not> isspace (hd (strip s))" and "\<not> isspace (last (strip s))"
proof -
  let ?d = "dropWhile isspace s"
  let ?e = "dropWhile isspace (rev ?d)"
  from assms have e: "?e \<noteq> []" by (simp add: strip_def)
  then have d: "?d \<noteq> []" by (cases ?d) simp_all
  have "hd (strip s) = last ?e" using e by (simp add: strip_def hd_rev)
  also have "\<dots> = last (rev ?d)" using e by (rule last_dropWhile)
  also have "\<dots> = hd ?d" using d by (simp add: last_rev)
  finally show "\<not> isspace (hd (strip s))" using d hd_dropWhile by metis
  have "last (strip s) = hd ?e" using e by (simp add: strip_def last_rev)
  then show "\<not> isspace (last (strip s))" using e hd_dropWhile by metis
qed

lemma strip_fixed:
  assumes "x \<noteq> []" "\<not> isspace (hd x)" "\<not> isspace (last x)"
  shows "strip x = x"
proof -
  from assms have "dropWhile isspace x = x" by (cases x) auto
  moreover from assms have "dropWhile isspace (rev x) = rev x"
    by (cases "rev x") (auto simp: hd_rev)
  ultimately show ?thesis by (simp add: strip_def)
qed

lemma strip_strip: "strip (strip s) = strip s"
proof (cases "strip s = []")
  case True
  have "strip [] = []" by (simp add: strip_def)
  with True show ?thesis by simp
next
  case False
  then show ?thesis using strip_ends[OF False] by (intro strip_fixed)
qed

lemma clean_and_filter_closed:
  "clean_and_filter i ps =
     map (\<lambda>j. \<lparr>clause_id = i + j + 1, clause_text = strip (ps ! j), detected_risks = []\<rparr>)
       (filter (\<lambda>j. 50 < length (strip (ps ! j))) [0..<length ps])"
proof (induction ps arbitrary: i)
  case Nil
  show ?case by simp
next
  case (Cons p ps)
  have upt: "[0..<length (p # ps)] = 0 # map Suc [0..<length ps]"
    by (simp add: upt_conv_Cons map_Suc_upt del: upt_Suc)
  show ?case
    unfolding upt by (simp add: Cons.IH filter_map comp_def Let_def del: upt_Suc)
qed

subsection \<open>Substrings, letter case and the classifier loop\<close>

lemma starts_with_iff: "starts_with k s \<longleftrightarrow> (\<exists>post. s = k @ post)"
  by (induction k s rule: starts_with.induct) auto

lemma contains_iff: "contains k s \<longleftrightarrow> (\<exists>pre post. s = pre @ k @ post)"
proof (induction s)
  case Nil
  show ?case by auto
next
  case (Cons c cs)
  show ?case
  proof
    assume "contains k (c # cs)"
    then consider "starts_with k (c # cs)" | "contains k cs" by auto
    then show "\<exists>pre post. c # cs = pre @ k @ post"
    proof cases
      case 1
      then obtain post where "c # cs = [] @ k @ post" by (auto simp: starts_with_iff)
      then show ?thesis by blast
    next
      case 2
      with Cons obtain pre post where "cs = pre @ k @ post" by blast
      then have "c # cs = (c # pre) @ k @ post" by simp
      then show ?thesis by blast
    qed
  next
    assume "\<exists>pre post. c # cs = pre @ k @ post"
    then obtain pre post where e: "c # cs = pre @ k @ post" by blast
    show "contains k (c # cs)"
    proof (cases pre)
      case Nil
      with e have "starts_with k (c # cs)" by (auto simp: starts_with_iff)
      then show ?thesis by simp
    next
      case (Cons a pre')
      with e have "cs = pre' @ k @ post" by simp
      with Cons.IH have "contains k cs" by blast
      then show ?thesis by simp
    qed
  qed
qed

lemma analyze_loop_closed:
  "analyze_loop items cl acc =
     acc @ map (\<lambda>(k, rd). detected_risk k rd (matches rd cl))
             (filter (\<lambda>(k, rd). matches rd cl \<noteq> []) items)"
  by (induction items cl acc rule: analyze_loop.induct) (simp_all add: Let_def)

lemma lower_upper_char: "lower_char (upper_char c) = lower_char c"
proof (cases "islower c")
  case False
  then show ?thesis by (simp add: upper_char_def)
next
  case True
  let ?n = "of_char c :: nat"
  have lt: "?n < 256" by simp
  from True have r: "(97 \<le> ?n \<and> ?n \<le> 122) \<or> (224 \<le> ?n \<and> ?n \<le> 254 \<and> ?n \<noteq> 247)"
    by (simp add: islower_def Let_def)
  then have notup: "\<not> isupper c" by (auto simp: isupper_def Let_def)
  have "?n - 32 < 256" using lt by arith
  then have oc: "(of_char (char_of (?n - 32)) :: nat) = ?n - 32" by (simp add: of_char_of)
  have up: "isupper (char_of (?n - 32))"
    unfolding isupper_def Let_def oc using r by auto
  have u: "upper_char c = char_of (?n - 32)" using True by (simp add: upper_char_def)
  have "lower_char (char_of (?n - 32)) = char_of ((of_char (char_of (?n - 32)) :: nat) + 32)"
    using up by (simp only: lower_char_def if_True)
  then have "lower_char (upper_char c) = char_of ((?n - 32) + 32)"
    by (simp only: u oc)
  also have "(?n - 32) + 32 = ?n" using r by auto
  finally show ?thesis using notup by (simp add: lower_char_def)
qed

lemma lower_lower_char: "lower_char (lower_char c) = lower_char c"
proof (cases "isupper c")
  case False
  then show ?thesis by (simp add: lower_char_def)
next
  case True
  let ?n = "of_char c :: nat"
  from True have r: "(65 \<le> ?n \<and> ?n \<le> 90) \<or> (192 \<le> ?n \<and> ?n \<le> 222 \<and> ?n \<noteq> 215)"
    by (simp add: isupper_def Let_def)
  have oc: "(of_char (char_of (?n + 32)) :: nat) = ?n + 32" using r by (auto simp add: of_char_of)
  have "\<not> isupper (char_of (?n + 32))"
    unfolding isupper_def Let_def oc using r by auto
  then show ?thesis using True by (simp add: lower_char_def)
qed

lemma case_variant_lower: "case_variant c d \<Longrightarrow> lower_char d = lower_char c"
  by (auto simp: case_variant_def lower_lower_char lower_upper_char)

lemma case_variants_lower: "list_all2 case_variant t t' \<Longrightarrow> lower t' = lower t"
  unfolding lower_def by (induction rule: list_all2_induct) (auto dest: case_variant_lower)

lemma risk_types: "map (\<lambda>(k, rd). title (replace_underscore k)) RISK_PATTERNS =
  [''Liability'', ''Termination'', ''Intellectual Property'', ''Confidentiality'',
   ''Payment'', ''Warranty'', ''Dispute Resolution'', ''Force Majeure'']"
  by code_simp

lemma suggestion_keys: "map fst suggestions =
  [''Liability'', ''Termination'', ''Intellectual Property'', ''Confidentiality'',
   ''Payment'', ''Warranty'', ''Dispute Resolution'', ''Force Majeure'']"
  by (simp add: suggestions_def)

lemma fallback_not_template: "fallback \<notin> snd ` set suggestions"
  by (simp add: suggestions_def fallback_def)

lemma distinct_suggestions: "distinct (map fst suggestions)"
  unfolding suggestion_keys by simp

lemma length_RISK_PATTERNS: "length RISK_PATTERNS = 8"
  by (simp add: RISK_PATTERNS_def)

lemma analyze_types:
  "map f_type (analyze_clause_risk t) =
     map (\<lambda>(k, rd). title (replace_underscore k))
       (filter (\<lambda>(k, rd). matches rd (lower t) \<noteq> []) RISK_PATTERNS)"
  by (simp add: analyze_clause_risk_def analyze_loop_closed detected_risk_def comp_def case_prod_unfold)

lemma distinct_risk_types:
  "distinct (map (\<lambda>(k, rd). title (replace_underscore k)) RISK_PATTERNS)"
  unfolding risk_types by simp


lemma analyze_closed:
  "analyze_clause_risk t =
     map (\<lambda>(k, rd). detected_risk k rd (matches rd (lower t)))
       (filter (\<lambda>(k, rd). matches rd (lower t) \<noteq> []) RISK_PATTERNS)"
  by (simp add: analyze_clause_risk_def analyze_loop_closed)

subsection \<open>The classifier as a state transformer\<close>

lemma analyze_steps_state:
  "analyze_steps items cl \<sigma> =
     \<sigma>\<lparr>v_detected_risks := analyze_loop items cl (v_detected_risks \<sigma>)\<rparr>"
  by (induction items cl \<sigma> rule: analyze_steps.induct) (simp_all add: Let_def)

lemma run_result:
  "analyze_clause_risk_run t \<sigma> =
     (analyze_loop (g_RISK_PATTERNS \<sigma>) (lower t) [],
      \<sigma>\<lparr>v_detected_risks := analyze_loop (g_RISK_PATTERNS \<sigma>) (lower t) []\<rparr>)"
  by (simp add: analyze_clause_risk_run_def Let_def analyze_steps_state)

subsection \<open>Two fragments separated by a blank line\<close>











section \<open>The claims\<close>

text \<open>
  C1 (as amended). The clauses returned by \<open>segment_into_clauses\<close> are, in document
  order, the pieces of the split whose trimmed length exceeds 50; the id of a clause is
  one more than the index of its piece among all the pieces of the split, so ids are
  strictly increasing but follow the raw pieces, not the retained ones.
\<close>

theorem segment_ids_follow_raw_index:
  "segment_into_clauses t =
     map (\<lambda>j. \<lparr>clause_id = j + 1, clause_text = strip (re_split t ! j), detected_risks = []\<rparr>)
       (filter (\<lambda>j. 50 < length (strip (re_split t ! j))) [0..<length (re_split t)])
   \<and> sorted_wrt (<) (map clause_id (segment_into_clauses t))"
proof -
  let ?js = "filter (\<lambda>j. 50 < length (strip (re_split t ! j))) [0..<length (re_split t)]"
  have eq: "segment_into_clauses t =
     map (\<lambda>j. \<lparr>clause_id = j + 1, clause_text = strip (re_split t ! j), detected_risks = []\<rparr>) ?js"
    by (simp add: segment_into_clauses_def clean_and_filter_closed)
  have "sorted_wrt (<) ?js" by (rule sorted_wrt_filter) simp
  then have inc: "sorted_wrt (<) (map Suc ?js)" by (simp add: sorted_wrt_map)
  have ids: "map clause_id (segment_into_clauses t) = map Suc ?js"
    unfolding eq by (simp add: comp_def)
  have "sorted_wrt (<) (map clause_id (segment_into_clauses t))"
    unfolding ids by (rule inc)
  with eq show ?thesis by (rule conjI)
qed

text \<open>
  Against dense numbering: a short heading followed by one clause. The heading is piece 1
  and is dropped; the only clause returned has id 2, not 1.
\<close>

theorem segment_ids_not_dense:
  "segment_into_clauses
     ''Definitions\<newline>\<newline>The supplier shall deliver the goods to the buyer within thirty days.''
     = [\<lparr>clause_id = 2,
          clause_text = ''The supplier shall deliver the goods to the buyer within thirty days.'',
          detected_risks = []\<rparr>]
   \<and> map clause_id (segment_into_clauses
     ''Definitions\<newline>\<newline>The supplier shall deliver the goods to the buyer within thirty days.'')
     \<noteq> [1 ..< Suc (length (segment_into_clauses
     ''Definitions\<newline>\<newline>The supplier shall deliver the goods to the buyer within thirty days.''))]"
proof -
  have v: "segment_into_clauses
     ''Definitions\<newline>\<newline>The supplier shall deliver the goods to the buyer within thirty days.''
     = [\<lparr>clause_id = 2,
          clause_text = ''The supplier shall deliver the goods to the buyer within thirty days.'',
          detected_risks = []\<rparr>]"
    by code_simp
  show ?thesis unfolding v by simp
qed

text \<open>
  C2. The claim asks for an inclusive boundary: a fragment of exactly 50 characters after
  trimming is a clause. The guard is \<open>len(cleaned) > 50\<close>, beside the comment
  \<open>Minimum length to be considered a clause\<close>: on a text of exactly 50 characters, which
  is a single piece equal to its trimmed form, \<open>segment_into_clauses\<close> returns no clause.
\<close>

theorem fragment_of_50_excluded:
  "length (strip ''The supplier shall deliver the goods to the buyer.'') = 50
   \<and> re_split ''The supplier shall deliver the goods to the buyer.'' = [''The supplier shall deliver the goods to the buyer.'']
   \<and> segment_into_clauses ''The supplier shall deliver the goods to the buyer.'' = []"
  by code_simp

text \<open>
  What the guard does in general: the piece at index \<open>j\<close> of the split is returned (with
  id \<open>j + 1\<close>) exactly when its trimmed length is greater than 50, so 51 is the shortest
  length returned.
\<close>

theorem fragment_kept_iff_longer_than_50:
  "j < length (re_split t) \<Longrightarrow>
     (j + 1 \<in> clause_id ` set (segment_into_clauses t)) = (50 < length (strip (re_split t ! j)))"
  by (auto simp: segment_into_clauses_def clean_and_filter_closed image_iff)

theorem fragment_kept_iff_longer_than_50_witness:
  "0 < length (re_split ''The supplier shall deliver the goods to the buyers.'')
   \<and> length (strip (re_split ''The supplier shall deliver the goods to the buyers.'' ! 0)) = 51
   \<and> 0 + 1 \<in> clause_id ` set (segment_into_clauses ''The supplier shall deliver the goods to the buyers.'')"
proof -
  have s: "re_split ''The supplier shall deliver the goods to the buyers.'' = [''The supplier shall deliver the goods to the buyers.'']"
    by code_simp
  have l: "length (strip ''The supplier shall deliver the goods to the buyers.'') = 51"
    by code_simp
  show ?thesis
    using fragment_kept_iff_longer_than_50 [of 0 "''The supplier shall deliver the goods to the buyers.''"]
    by (simp add: s l)
qed



text \<open>
  At the scenario text itself the second fragment has 31 characters after trimming, so
  the condition on the lengths does not hold there: the split gives two pieces and
  segmentation returns the first one only. The findings of the two pieces are as the
  scenario names them.
\<close>

lemma scenario_text_evaluated:
  "length (strip ''Termination requires no notice.'') = 31
   \<and> re_split ''This agreement provides unlimited liability and no warranty.\<newline>\<newline>Termination requires no notice.''
     = [''This agreement provides unlimited liability and no warranty.'', ''Termination requires no notice.'']
   \<and> segment_into_clauses
        ''This agreement provides unlimited liability and no warranty.\<newline>\<newline>Termination requires no notice.''
     = [\<lparr>clause_id = 1,
          clause_text = ''This agreement provides unlimited liability and no warranty.'',
          detected_risks = []\<rparr>]
   \<and> map (\<lambda>f. (f_type f, matched_keywords f))
        (analyze_clause_risk ''This agreement provides unlimited liability and no warranty.'')
     = [(''Liability'', [''unlimited liability'']), (''Warranty'', [''no warranty''])]
   \<and> map (\<lambda>f. (f_type f, matched_keywords f))
        (analyze_clause_risk ''Termination requires no notice.'')
     = [(''Termination'', [''no notice''])]"
  by code_simp

text \<open>
  C4. Two calls of the classifier on the same clause text, one after the other, return
  the same findings in the same order with the same lists of matched keywords, whatever
  the taxonomy and whatever an earlier call has left in \<open>detected_risks\<close>: a call does
  not change the taxonomy, and it starts from an empty list. With \<open>RISK_PATTERNS\<close> as
  the taxonomy the result is \<open>analyze_clause_risk\<close>.
\<close>

theorem analyze_two_calls_agree:
  assumes "analyze_clause_risk_run t \<sigma> = (r1, \<sigma>1)"
    and "analyze_clause_risk_run t \<sigma>1 = (r2, \<sigma>2)"
  shows "r1 = r2 \<and> map matched_keywords r1 = map matched_keywords r2
    \<and> g_RISK_PATTERNS \<sigma>1 = g_RISK_PATTERNS \<sigma> \<and> g_RISK_PATTERNS \<sigma>2 = g_RISK_PATTERNS \<sigma>
    \<and> (g_RISK_PATTERNS \<sigma> = RISK_PATTERNS \<longrightarrow> r1 = analyze_clause_risk t)"
proof -
  from assms(1) have r1: "r1 = analyze_loop (g_RISK_PATTERNS \<sigma>) (lower t) []"
    and s1: "\<sigma>1 = \<sigma>\<lparr>v_detected_risks := r1\<rparr>"
    by (auto simp: run_result)
  from s1 have g1: "g_RISK_PATTERNS \<sigma>1 = g_RISK_PATTERNS \<sigma>" by simp
  from assms(2) have r2: "r2 = analyze_loop (g_RISK_PATTERNS \<sigma>1) (lower t) []"
    and s2: "\<sigma>2 = \<sigma>1\<lparr>v_detected_risks := r2\<rparr>"
    by (auto simp: run_result)
  from s2 g1 have g2: "g_RISK_PATTERNS \<sigma>2 = g_RISK_PATTERNS \<sigma>" by simp
  from r1 r2 g1 have "r1 = r2" by simp
  with g1 g2 r1 show ?thesis by (simp add: analyze_clause_risk_def)
qed

theorem analyze_two_calls_agree_witness:
  "fst (analyze_clause_risk_run ''Termination requires no notice.''
          \<lparr>g_RISK_PATTERNS = RISK_PATTERNS, v_detected_risks = []\<rparr>)
     = fst (analyze_clause_risk_run ''Termination requires no notice.''
          (snd (analyze_clause_risk_run ''Termination requires no notice.''
             \<lparr>g_RISK_PATTERNS = RISK_PATTERNS, v_detected_risks = []\<rparr>)))
   \<and> map matched_keywords (fst (analyze_clause_risk_run ''Termination requires no notice.''
          \<lparr>g_RISK_PATTERNS = RISK_PATTERNS, v_detected_risks = []\<rparr>)) = [[''no notice'']]
   \<and> v_detected_risks (snd (analyze_clause_risk_run ''Termination requires no notice.''
          \<lparr>g_RISK_PATTERNS = RISK_PATTERNS, v_detected_risks = []\<rparr>)) \<noteq> []"
proof -
  let ?s = "\<lparr>g_RISK_PATTERNS = RISK_PATTERNS, v_detected_risks = []\<rparr>"
  let ?T = "''Termination requires no notice.''"
  let ?p = "analyze_clause_risk_run ?T ?s"
  let ?q = "analyze_clause_risk_run ?T (snd ?p)"
  have a: "analyze_clause_risk_run ?T ?s = (fst ?p, snd ?p)" by simp
  have b: "analyze_clause_risk_run ?T (snd ?p) = (fst ?q, snd ?q)" by simp
  note th = analyze_two_calls_agree [OF a b]
  have v: "map matched_keywords (analyze_clause_risk ?T) = [[''no notice'']]" by code_simp
  from th have e: "fst ?p = fst ?q" by (rule conjunct1)
  have g0: "g_RISK_PATTERNS ?s = RISK_PATTERNS" by simp
  from th g0 have "fst ?p = analyze_clause_risk ?T" by blast
  with v have m: "map matched_keywords (fst ?p) = [[''no notice'']]" by simp
  then have "fst ?p \<noteq> []" by auto
  then have n: "v_detected_risks (snd ?p) \<noteq> []" by (simp add: run_result)
  from e m n show ?thesis by blast
qed

text \<open>
  C5 (as amended). The classifier compares the \<open>lower()\<close> forms of clause and keywords:
  two clause texts with the same \<open>lower()\<close> form get the same findings with the same
  matched keywords, and texts that differ position by position by a one-to-one change of
  case (\<open>case_variant\<close>), such as INDEMNIFY and indemnify, have the same \<open>lower()\<close> form.
\<close>

theorem analyze_depends_on_lower_form:
  "(lower t' = lower t \<longrightarrow> analyze_clause_risk t' = analyze_clause_risk t)
   \<and> (list_all2 case_variant t t' \<longrightarrow> lower t' = lower t)"
  by (simp add: analyze_clause_risk_def case_variants_lower)

theorem analyze_depends_on_lower_form_witness:
  "list_all2 case_variant ''We shall INDEMNIFY you.'' ''we shall indemnify You.''
   \<and> lower ''we shall indemnify You.'' = lower ''We shall INDEMNIFY you.''
   \<and> analyze_clause_risk ''we shall indemnify You.'' = analyze_clause_risk ''We shall INDEMNIFY you.''
   \<and> map (\<lambda>f. (f_type f, matched_keywords f)) (analyze_clause_risk ''We shall INDEMNIFY you.'')
       = [(''Liability'', [''indemnify''])]"
proof -
  have v: "list_all2 case_variant ''We shall INDEMNIFY you.'' ''we shall indemnify You.''"
    by code_simp
  have r: "map (\<lambda>f. (f_type f, matched_keywords f)) (analyze_clause_risk ''We shall INDEMNIFY you.'')
       = [(''Liability'', [''indemnify''])]"
    by code_simp
  note th = analyze_depends_on_lower_form [of "''we shall indemnify You.''" "''We shall INDEMNIFY you.''"]
  from th v have l: "lower ''we shall indemnify You.'' = lower ''We shall INDEMNIFY you.''" by blast
  with th have "analyze_clause_risk ''we shall indemnify You.'' = analyze_clause_risk ''We shall INDEMNIFY you.''"
    by blast
  with v l r show ?thesis by blast
qed

text \<open>
  Against case-insensitivity for every change of case: upper-casing a text with a sharp s
  gives \<open>SS\<close>, which \<open>lower()\<close> does not take back. The text below has no finding; its
  upper-case form has the Liability finding for \<open>hold harmless\<close>.
\<close>

theorem upper_case_changes_findings:
  "upper (''We hold harmle'' @ [CHR 0xDF] @ ''.'') = ''WE HOLD HARMLESS.''
   \<and> analyze_clause_risk (''We hold harmle'' @ [CHR 0xDF] @ ''.'') = []
   \<and> map (\<lambda>f. (f_type f, matched_keywords f))
         (analyze_clause_risk (upper (''We hold harmle'' @ [CHR 0xDF] @ ''.'')))
       = [(''Liability'', [''hold harmless''])]"
  by code_simp



text \<open>
  C7. \<open>generate_redline\<close> returns the template registered under the given name, the
  fallback text for a name with no template, and does not depend on the clause text.
  It has no failing branch.
\<close>

theorem generate_redline_lookup:
  "(\<forall>(name, template)\<in>set suggestions. generate_redline original_text name = template)
   \<and> (rtype \<notin> fst ` set suggestions \<longrightarrow> generate_redline original_text rtype = fallback)
   \<and> generate_redline original_text rtype = generate_redline other_text rtype"
proof (intro conjI)
  show "\<forall>(name, template)\<in>set suggestions. generate_redline original_text name = template"
    using distinct_suggestions by (auto simp: generate_redline_def)
  show "rtype \<notin> fst ` set suggestions \<longrightarrow> generate_redline original_text rtype = fallback"
  proof
    assume "rtype \<notin> fst ` set suggestions"
    then have "map_of suggestions rtype = None" by (simp add: map_of_eq_None_iff)
    then show "generate_redline original_text rtype = fallback"
      by (simp add: generate_redline_def)
  qed
  show "generate_redline original_text rtype = generate_redline other_text rtype"
    by (simp add: generate_redline_def)
qed

theorem generate_redline_lookup_witness:
  "(''Payment'', ''SUGGESTED REDLINE: \"Payment shall be made in installments based on project milestones: 30% upon signing, 40% upon milestone completion, 30% upon final delivery and acceptance.\"'') \<in> set suggestions
   \<and> generate_redline ''Payment in full is due at once.'' ''Payment''
        = ''SUGGESTED REDLINE: \"Payment shall be made in installments based on project milestones: 30% upon signing, 40% upon milestone completion, 30% upon final delivery and acceptance.\"''
   \<and> ''payment'' \<notin> fst ` set suggestions
   \<and> generate_redline ''Payment in full is due at once.'' ''payment'' = ''No specific redline suggestion available.''"
proof -
  have m: "(''Payment'', ''SUGGESTED REDLINE: \"Payment shall be made in installments based on project milestones: 30% upon signing, 40% upon milestone completion, 30% upon final delivery and acceptance.\"'') \<in> set suggestions"
    by (simp add: suggestions_def)
  have n: "''payment'' \<notin> fst ` set suggestions"
    by (simp add: suggestions_def)
  note l = generate_redline_lookup [of "''Payment in full is due at once.''" "''payment''"]
  from l have a: "\<forall>(name, template)\<in>set suggestions.
      generate_redline ''Payment in full is due at once.'' name = template" by (rule conjunct1)
  from l n have b: "generate_redline ''Payment in full is due at once.'' ''payment'' = fallback"
    by blast
  from bspec [OF a m] b m n show ?thesis by (simp add: fallback_def)
qed

text \<open>
  C8. For the empty text and for a text of whitespace only, \<open>segment_into_clauses\<close>
  returns no clause, and the analysis counts no finding. Segmentation and classification
  are total functions with no error result.
\<close>

theorem segment_blank_input_empty:
  "segment_into_clauses [] = [] \<and> total_risks (analyze_contract []) = 0
   \<and> ((\<forall>c\<in>set t. isspace c) \<longrightarrow>
        segment_into_clauses t = [] \<and> total_risks (analyze_contract t) = 0)"
proof -
  have blank: "segment_into_clauses s = []" if "\<forall>c\<in>set s. isspace c" for s
  proof -
    have "strip p = []" if "p \<in> set (re_split s)" for p
      using re_split_chars [OF that] \<open>\<forall>c\<in>set s. isspace c\<close> by (intro strip_blank) blast
    then show ?thesis by (simp add: segment_into_clauses_def clean_and_filter_blank)
  qed
  have tot: "total_risks (analyze_contract s) = 0" if "segment_into_clauses s = []" for s
    using that by (simp add: total_risks_def analyze_contract_def)
  have "segment_into_clauses [] = []" by (rule blank) simp
  with blank tot show ?thesis by blast
qed

theorem segment_blank_input_empty_witness:
  "list_all isspace '' \<newline>\<newline>  \<newline> ''
   \<and> segment_into_clauses '' \<newline>\<newline>  \<newline> '' = []
   \<and> total_risks (analyze_contract '' \<newline>\<newline>  \<newline> '') = 0"
proof -
  have h: "\<forall>c\<in>set '' \<newline>\<newline>  \<newline> ''. isspace c" by (simp add: isspace_def)
  then have l: "list_all isspace '' \<newline>\<newline>  \<newline> ''" by (simp only: list_all_iff)
  from h segment_blank_input_empty [of "'' \<newline>\<newline>  \<newline> ''"]
  have "segment_into_clauses '' \<newline>\<newline>  \<newline> '' = []
    \<and> total_risks (analyze_contract '' \<newline>\<newline>  \<newline> '') = 0" by blast
  with l show ?thesis by blast
qed

text \<open>
  C9. The text of every returned clause is the trimmed piece of the split at the position
  its id names; it has no whitespace at either end, and its length is never below 50
  (it is above 50).
\<close>

theorem clause_text_trimmed_and_long:
  "c \<in> set (segment_into_clauses t) \<Longrightarrow>
     1 \<le> clause_id c \<and> clause_id c \<le> length (re_split t)
     \<and> clause_text c = strip (re_split t ! (clause_id c - 1))
     \<and> strip (clause_text c) = clause_text c
     \<and> \<not> isspace (hd (clause_text c)) \<and> \<not> isspace (last (clause_text c))
     \<and> 50 \<le> length (strip (clause_text c))
     \<and> 50 < length (clause_text c)"
proof -
  assume "c \<in> set (segment_into_clauses t)"
  then obtain j where j: "j < length (re_split t)" "50 < length (strip (re_split t ! j))"
    and c: "c = \<lparr>clause_id = j + 1, clause_text = strip (re_split t ! j), detected_risks = []\<rparr>"
    by (auto simp: segment_into_clauses_def clean_and_filter_closed)
  from j(2) have ne: "strip (re_split t ! j) \<noteq> []" by auto
  show ?thesis
    using j strip_ends [OF ne] by (simp add: c strip_strip)
qed

theorem clause_text_trimmed_and_long_witness:
  "\<lparr>clause_id = 2, clause_text = ''The supplier shall deliver the goods to the buyer within thirty days.'', detected_risks = []\<rparr>
     \<in> set (segment_into_clauses ''Definitions\<newline>\<newline>  The supplier shall deliver the goods to the buyer within thirty days. \<newline>'')
   \<and> strip ''The supplier shall deliver the goods to the buyer within thirty days.''
       = ''The supplier shall deliver the goods to the buyer within thirty days.''
   \<and> 50 \<le> length (strip ''The supplier shall deliver the goods to the buyer within thirty days.'')"
proof -
  have m: "\<lparr>clause_id = 2, clause_text = ''The supplier shall deliver the goods to the buyer within thirty days.'', detected_risks = []\<rparr>
     \<in> set (segment_into_clauses ''Definitions\<newline>\<newline>  The supplier shall deliver the goods to the buyer within thirty days. \<newline>'')"
    by code_simp
  note r = clause_text_trimmed_and_long [OF m, unfolded clause.select_convs]
  from r have a: "strip ''The supplier shall deliver the goods to the buyer within thirty days.''
       = ''The supplier shall deliver the goods to the buyer within thirty days.''" by blast
  from r have b: "50 \<le> length (strip ''The supplier shall deliver the goods to the buyer within thirty days.'')"
    by blast
  from m a b show ?thesis by blast
qed

text \<open>
  C10. For every clause text there are at most 8 findings, with pairwise distinct type
  names (one per category at most); every finding has a non-empty list of matched
  keywords, and its type name has a template in \<open>suggestions\<close>, so
  \<open>generate_redline\<close> on it never returns the fallback text.
\<close>

theorem findings_well_formed:
  "length (analyze_clause_risk t) \<le> 8
   \<and> distinct (map f_type (analyze_clause_risk t))
   \<and> (\<forall>f\<in>set (analyze_clause_risk t).
         matched_keywords f \<noteq> []
         \<and> f_type f \<in> fst ` set suggestions
         \<and> generate_redline original_text (f_type f) \<noteq> fallback)"
proof (intro conjI ballI)
  have "length (analyze_clause_risk t) \<le> length RISK_PATTERNS"
    unfolding analyze_closed by simp
  then show "length (analyze_clause_risk t) \<le> 8" by (simp add: length_RISK_PATTERNS)
  show "distinct (map f_type (analyze_clause_risk t))"
    unfolding analyze_types using distinct_risk_types by (rule distinct_map_filter)
  fix f assume f: "f \<in> set (analyze_clause_risk t)"
  then obtain k rd where krd: "(k, rd) \<in> set RISK_PATTERNS" "matches rd (lower t) \<noteq> []"
    and fe: "f = detected_risk k rd (matches rd (lower t))"
    unfolding analyze_closed by auto
  from krd(2) fe show "matched_keywords f \<noteq> []" by (simp add: detected_risk_def)
  from krd(1) have "title (replace_underscore k) \<in> set (map (\<lambda>(k, rd). title (replace_underscore k)) RISK_PATTERNS)"
    by force
  then have "f_type f \<in> set (map fst suggestions)"
    unfolding risk_types suggestion_keys by (simp add: fe detected_risk_def)
  then show key: "f_type f \<in> fst ` set suggestions" by simp
  then obtain tpl where tpl: "(f_type f, tpl) \<in> set suggestions" by auto
  then have look: "map_of suggestions (f_type f) = Some tpl"
    using distinct_suggestions by simp
  from tpl have "tpl \<in> snd ` set suggestions" by force
  with fallback_not_template have "tpl \<noteq> fallback" by blast
  with look show "generate_redline original_text (f_type f) \<noteq> fallback"
    by (simp add: generate_redline_def)
qed

theorem findings_well_formed_witness:
  "analyze_clause_risk ''This agreement provides unlimited liability and no warranty.'' \<noteq> []
   \<and> matched_keywords (hd (analyze_clause_risk
         ''This agreement provides unlimited liability and no warranty.'')) \<noteq> []
   \<and> generate_redline ''This agreement provides unlimited liability and no warranty.''
         (f_type (hd (analyze_clause_risk
           ''This agreement provides unlimited liability and no warranty.''))) \<noteq> fallback
   \<and> length (analyze_clause_risk
         ''This agreement provides unlimited liability and no warranty.'') \<le> 8"
proof -
  have ne: "analyze_clause_risk ''This agreement provides unlimited liability and no warranty.'' \<noteq> []"
    by code_simp
  then have m: "hd (analyze_clause_risk ''This agreement provides unlimited liability and no warranty.'')
    \<in> set (analyze_clause_risk ''This agreement provides unlimited liability and no warranty.'')"
    by (rule hd_in_set)
  from ne m findings_well_formed [of "''This agreement provides unlimited liability and no warranty.''"
      "''This agreement provides unlimited liability and no warranty.''"]
  show ?thesis by blast
qed

end
